theory Spec2Isabelle
  imports Main
begin

section \<open>Values and records of after-context.ts\<close>

text \<open>
  The model is a shallow embedding of \<^verbatim>\<open>packages/next/src/server/after/after-context.ts\<close>.
  Mutable objects are held in an explicit \<open>world\<close>; every call the class makes to the outside
  (\<^verbatim>\<open>waitUntil\<close>, \<^verbatim>\<open>onClose\<close>, \<^verbatim>\<open>console.error\<close>, \<^verbatim>\<open>onTaskError\<close>, launching a queued callback)
  appends an event to the world's chronological event list. A \<^verbatim>\<open>throw\<close> is the left injection
  of a sum, paired with the world as it is at the moment of the throw.
\<close>

text \<open>A \<^verbatim>\<open>CaptureStackTrace\<close> is an \<^verbatim>\<open>Error\<close> object kept for its stack text.\<close>

type_synonym CaptureStackTrace = string

text \<open>The \<^verbatim>\<open>phase\<close> labels of a work-unit store: \<^verbatim>\<open>'action' | 'render' | 'after'\<close>.\<close>

datatype WorkUnitPhase = Action | Render | After

text \<open>
  JavaScript values that are thrown, rejected with, or logged: \<^verbatim>\<open>undefined\<close>, a string,
  \<^verbatim>\<open>new Error(message)\<close> and \<^verbatim>\<open>new InvariantError(message, { cause })\<close>.
\<close>

datatype js_value =
    Undefined
  | Str string
  | Error string
  | InvariantError string "js_value option"

text \<open>
  The argument of \<^verbatim>\<open>after\<close> as it arrives at run time: a promise (an object with a callable
  \<^verbatim>\<open>then\<close>), a function, or any other value. Promises and functions are named by an identifier;
  what user code does inside them is an input of the environment (section \<open>The environment\<close>).
\<close>

datatype AfterTask =
    TPromise nat
  | TFunction nat
  | TUndefined
  | TNull
  | TNumber int
  | TString string
  | TObject nat

text \<open>
  Modelled from the spec: \<^verbatim>\<open>isThenable\<close> (shared/lib/is-thenable) is not part of the source
  file; an "eventual task" is a handle to work in progress, that is, exactly a promise.
\<close>

fun isThenable :: "AfterTask \<Rightarrow> bool" where
  "isThenable (TPromise p) = True"
| "isThenable t = False"

text \<open>\<^verbatim>\<open>typeof task === 'function'\<close>\<close>

fun typeof_function :: "AfterTask \<Rightarrow> bool" where
  "typeof_function (TFunction f) = True"
| "typeof_function t = False"

record TaskCallerInfo =
  callerStack :: CaptureStackTrace
  reactOwnerStack :: "string option"

text \<open>
  \<^verbatim>\<open>AfterTaskStore\<close>; \<^verbatim>\<open>AfterTaskStackInfo\<close> is the same object shape (the nested branch of
  \<^verbatim>\<open>after\<close> spreads an \<^verbatim>\<open>AfterTaskStore\<close> into it). \<open>None\<close> stands for \<^verbatim>\<open>undefined\<close>, \<^verbatim>\<open>null\<close>
  or a missing key.
\<close>

record AfterTaskStore =
  rootTaskSpawnPhase :: "WorkUnitPhase option"
  rootTaskReactOwnerStack :: "string option"
  rootTaskCallerStack :: CaptureStackTrace
  nestedTaskCallerStacks :: "CaptureStackTrace list option"

text \<open>A work store is opaque here; a work-unit store is a reference into the world's heap.\<close>

type_synonym WorkStore = nat

text \<open>
  The three ambient stores the file reads with \<^verbatim>\<open>getStore()\<close>; each may be absent.
\<close>

record ambient =
  workStore :: "WorkStore option"
  workUnitStore :: "nat option"
  afterTaskStore :: "AfterTaskStore option"

text \<open>
  What \<^verbatim>\<open>addCallback\<close> puts into the queue: \<^verbatim>\<open>bindSnapshot(unwrappedCallback)\<close>. The closure
  holds the user's callback, \<^verbatim>\<open>newAfterTaskStore\<close>, and the ambient stores bound by
  \<^verbatim>\<open>bindSnapshot\<close>.
\<close>

record wrappedCallback =
  callback :: AfterTask
  taskStore :: AfterTaskStore
  snapshot :: ambient

text \<open>
  Modelled from the spec: the class \<^verbatim>\<open>PromiseQueue\<close> (next/dist/compiled/p-queue) is not part of
  the source file. Section 4.2 of the spec: a FIFO of procedures; \<open>push\<close> is always legal;
  \<open>start\<close> turns a paused queue into a running one and launches everything queued; an item
  pushed while running is launched at once; the queue is idle when nothing is queued or in
  flight. Each operation returns the procedures it launches, in launch order.
\<close>

record PromiseQueue =
  isPaused :: bool
  queue :: "wrappedCallback list"
  pending :: "wrappedCallback list"

definition new_PromiseQueue :: PromiseQueue where
  "new_PromiseQueue = \<lparr>isPaused = False, queue = [], pending = []\<rparr>"

definition pause :: "PromiseQueue \<Rightarrow> PromiseQueue" where
  "pause q = q\<lparr>isPaused := True\<rparr>"

definition queue_size :: "PromiseQueue \<Rightarrow> nat" where
  "queue_size q = length (queue q)"

definition queue_add :: "wrappedCallback \<Rightarrow> PromiseQueue \<Rightarrow> wrappedCallback list \<times> PromiseQueue" where
  "queue_add job q =
     (if isPaused q then ([], q\<lparr>queue := queue q @ [job]\<rparr>)
      else ([job], q\<lparr>pending := pending q @ [job]\<rparr>))"

definition queue_start :: "PromiseQueue \<Rightarrow> wrappedCallback list \<times> PromiseQueue" where
  "queue_start q =
     (if isPaused q
      then (queue q, q\<lparr>isPaused := False, queue := [], pending := pending q @ queue q\<rparr>)
      else ([], q))"

definition onIdle :: "PromiseQueue \<Rightarrow> bool" where
  "onIdle q = (queue q = [] \<and> pending q = [])"

text \<open>
  The promise returned by the async function \<^verbatim>\<open>runCallbacksOnClose\<close>, identified with the state
  of that function: suspended at its \<^verbatim>\<open>await\<close> (with the ambient work store its continuation will
  see), resumable because the close thunk was invoked, or finished: \<^verbatim>\<open>runCallbacks\<close> returned
  at once on an empty queue, started the queue, or threw.
\<close>

datatype closeWait =
    AwaitingClose "WorkStore option"
  | CloseResolved "WorkStore option"
  | DrainSkipped
  | Draining
  | DrainRejected js_value

text \<open>A host function handed to the constructor; its calls are recorded as events.\<close>

datatype host_fn = HostFn string

record AfterContext =
  waitUntil :: "host_fn option"
  onClose :: host_fn
  onTaskError :: "(js_value \<Rightarrow> js_value option) option"
  isEnabled :: bool
  runCallbacksOnClosePromise :: "closeWait option"
  callbackQueue :: PromiseQueue
  workUnitStores :: "nat list"

text \<open>
  \<open>onTaskError\<close>: the hook maps the reported value to \<open>None\<close> when it returns and to
  \<open>Some e\<close> when it throws \<open>e\<close>. \<open>workUnitStores\<close>: a JavaScript \<^verbatim>\<open>Set\<close> of object references,
  kept in insertion order without duplicates.
\<close>

datatype promise = TaskCatch AfterTask | RunCallbacksOnClose

datatype event =
    WaitUntil promise
  | OnClose
  | CloseNotified
  | PhaseAssigned nat WorkUnitPhase
  | QueueStart
  | CallbackStarted wrappedCallback
  | ConsoleError "js_value list"
  | OnTaskError js_value

text \<open>
  \<open>WaitUntil p\<close>: \<^verbatim>\<open>this.waitUntil(p)\<close>, with \<open>TaskCatch t\<close> the promise \<^verbatim>\<open>task.catch(...)\<close> of the
  task \<open>t\<close>. \<open>OnClose\<close>: \<^verbatim>\<open>this.onClose(resolve)\<close>. \<open>CloseNotified\<close>: the host invoked
  that \<^verbatim>\<open>resolve\<close>. \<open>PhaseAssigned r p\<close>: \<^verbatim>\<open>workUnitStore.phase = p\<close> on the store \<open>r\<close>.
  \<open>QueueStart\<close>: \<^verbatim>\<open>this.callbackQueue.start()\<close>. \<open>CallbackStarted j\<close>: the queue began executing
  \<open>j\<close>. \<open>ConsoleError args\<close>: \<^verbatim>\<open>console.error(...args)\<close>. \<open>OnTaskError e\<close>: the hook was called
  with \<open>e\<close>.
\<close>

record world =
  self :: AfterContext
  phase :: "nat \<Rightarrow> WorkUnitPhase option"
  catchHandlers :: "(AfterTask \<times> TaskCallerInfo \<times> AfterTaskStore option) list"
  events :: "event list"

text \<open>
  \<open>self\<close> is \<^verbatim>\<open>this\<close>. \<open>phase w r\<close> is the \<^verbatim>\<open>phase\<close> field of the work-unit store \<open>r\<close>
  (\<open>None\<close> for a store kind without one). \<open>catchHandlers\<close>: the rejection handlers attached by
  \<^verbatim>\<open>task.catch\<close>, each with the caller info its closure holds and the after-task store that is
  ambient for it.
\<close>

type_synonym completion = "(js_value \<times> world) + world"

text \<open>
  Code imported by the file and not part of it, taken as parameters: \<^verbatim>\<open>isError\<close> (lib/is-error)
  and \<^verbatim>\<open>stitchAfterCallstack\<close> (./stitch-after-callstack), which returns the stitched error
  (\<open>Inr\<close>) or throws (\<open>Inl\<close>).
\<close>

record externals =
  isError :: "js_value \<Rightarrow> bool"
  stitchAfterCallstack :: "js_value \<Rightarrow> AfterTaskStore \<Rightarrow> js_value + js_value"

section \<open>The class AfterContext\<close>

definition AfterContext_constructor ::
  "host_fn option \<Rightarrow> host_fn \<Rightarrow> (js_value \<Rightarrow> js_value option) option \<Rightarrow> bool \<Rightarrow> AfterContext" where
  "AfterContext_constructor waitUntil' onClose' onTaskError' isEnabled' =
     \<lparr>waitUntil = waitUntil', onClose = onClose', onTaskError = onTaskError',
      isEnabled = isEnabled', runCallbacksOnClosePromise = None,
      callbackQueue = pause new_PromiseQueue, workUnitStores = []\<rparr>"

definition errorWaitUntilNotAvailable :: js_value where
  "errorWaitUntilNotAvailable =
     Error ''`unstable_after()` will not work correctly, because `waitUntil` is not available in the current environment.''"

definition usageError :: js_value where
  "usageError = Error ''`unstable_after()`: Argument must be a promise or a function''"

definition console_error :: "js_value list \<Rightarrow> world \<Rightarrow> world" where
  "console_error args w = w\<lparr>events := events w @ [ConsoleError args]\<rparr>"

subsection \<open>reportTaskError\<close>

datatype taskKind = KPromise | KFunction

definition taskKind_message :: "taskKind \<Rightarrow> string" where
  "taskKind_message k =
     (case k of
        KPromise \<Rightarrow> ''A promise passed to `unstable_after()` rejected:''
      | KFunction \<Rightarrow> ''An error occurred in a function passed to `unstable_after()`:'')"

text \<open>The first statement: the guarded stitch inside \<^verbatim>\<open>try\<close>/\<^verbatim>\<open>catch\<close>. It yields the value of the
  variable \<^verbatim>\<open>error\<close> afterwards.\<close>

definition stitch_step ::
  "externals \<Rightarrow> js_value \<Rightarrow> AfterTaskStore option \<Rightarrow> world \<Rightarrow> js_value \<times> world" where
  "stitch_step ext error stackInfo w =
     (case stackInfo of
        None \<Rightarrow> (error, w)
      | Some si \<Rightarrow>
          if isError ext error then
            (case stitchAfterCallstack ext error si of
               Inr stitched \<Rightarrow> (stitched, w)
             | Inl stitchError \<Rightarrow>
                 (error,
                  console_error
                    [InvariantError ''Could not stitch callstack for after callback''
                       (Some stitchError)] w))
          else (error, w))"

text \<open>The last statement: the guarded hook call inside \<^verbatim>\<open>try\<close>/\<^verbatim>\<open>catch\<close>.\<close>

definition hook_step :: "js_value \<Rightarrow> world \<Rightarrow> completion" where
  "hook_step error w =
     (case onTaskError (self w) of
        None \<Rightarrow> Inr w
      | Some hook \<Rightarrow>
          (let w1 = w\<lparr>events := events w @ [OnTaskError error]\<rparr>
           in case hook error of
                None \<Rightarrow> Inr w1
              | Some handlerError \<Rightarrow>
                  Inr (console_error
                         [InvariantError
                            ''`onTaskError` threw while handling an error thrown from an `unstable_after` task''
                            (Some handlerError)] w1)))"

definition reportTaskError ::
  "externals \<Rightarrow> taskKind \<Rightarrow> js_value \<Rightarrow> AfterTaskStore option \<Rightarrow> world \<Rightarrow> completion" where
  "reportTaskError ext kind error stackInfo w =
     (case stitch_step ext error stackInfo w of
        (error1, w1) \<Rightarrow>
          hook_step error1 (console_error [Str (taskKind_message kind), error1] w1))"

subsection \<open>after and addCallback\<close>

text \<open>
  The object built in the \<^verbatim>\<open>catch\<close> handler of \<^verbatim>\<open>after\<close> (variable \<^verbatim>\<open>stackInfo\<close>): the topmost
  branch has no \<^verbatim>\<open>rootTaskSpawnPhase\<close> key, the nested branch spreads the ambient store.
\<close>

definition stackInfo_of :: "AfterTaskStore option \<Rightarrow> TaskCallerInfo \<Rightarrow> AfterTaskStore" where
  "stackInfo_of afterTaskStore' callerInfo =
     (case afterTaskStore' of
        None \<Rightarrow>
          \<lparr>rootTaskSpawnPhase = None,
           rootTaskReactOwnerStack = reactOwnerStack callerInfo,
           rootTaskCallerStack = callerStack callerInfo,
           nestedTaskCallerStacks = None\<rparr>
      | Some st \<Rightarrow>
          st\<lparr>nestedTaskCallerStacks :=
               Some (callerStack callerInfo #
                     (case nestedTaskCallerStacks st of None \<Rightarrow> [] | Some cs \<Rightarrow> cs))\<rparr>)"

text \<open>The rejection handler \<^verbatim>\<open>(error) => { ... this.reportTaskError('promise', error, stackInfo) }\<close>.\<close>

definition task_catch ::
  "externals \<Rightarrow> AfterTaskStore option \<Rightarrow> TaskCallerInfo \<Rightarrow> js_value \<Rightarrow> world \<Rightarrow> completion" where
  "task_catch ext afterTaskStore' callerInfo error w =
     reportTaskError ext KPromise error (Some (stackInfo_of afterTaskStore' callerInfo)) w"

text \<open>
  The variable \<^verbatim>\<open>newAfterTaskStore\<close> of \<^verbatim>\<open>addCallback\<close>, from the ambient after-task store, the
  value of \<^verbatim>\<open>workUnitStore?.phase\<close> and the caller info.
\<close>

definition newAfterTaskStore ::
  "AfterTaskStore option \<Rightarrow> WorkUnitPhase option \<Rightarrow> TaskCallerInfo \<Rightarrow> AfterTaskStore" where
  "newAfterTaskStore outerAfterTaskStore spawnPhase callerInfo =
     (case outerAfterTaskStore of
        None \<Rightarrow>
          \<lparr>rootTaskSpawnPhase = spawnPhase,
           rootTaskReactOwnerStack = reactOwnerStack callerInfo,
           rootTaskCallerStack = callerStack callerInfo,
           nestedTaskCallerStacks = None\<rparr>
      | Some st \<Rightarrow>
          st\<lparr>nestedTaskCallerStacks :=
               Some (callerStack callerInfo #
                     (case nestedTaskCallerStacks st of None \<Rightarrow> [] | Some cs \<Rightarrow> cs))\<rparr>)"

text \<open>\<^verbatim>\<open>Set.prototype.add\<close> on the insertion-ordered set.\<close>

definition set_add :: "nat \<Rightarrow> nat list \<Rightarrow> nat list" where
  "set_add r rs = (if r \<in> set rs then rs else rs @ [r])"

text \<open>\<^verbatim>\<open>this.callbackQueue.add(wrappedCallback)\<close>: the queue operation, with its launches recorded.\<close>

definition callbackQueue_add :: "wrappedCallback \<Rightarrow> world \<Rightarrow> world" where
  "callbackQueue_add job w =
     (case queue_add job (callbackQueue (self w)) of
        (launched, q) \<Rightarrow>
          w\<lparr>self := (self w)\<lparr>callbackQueue := q\<rparr>,
            events := events w @ map CallbackStarted launched\<rparr>)"

text \<open>\<^verbatim>\<open>this.callbackQueue.start()\<close>, followed by \<^verbatim>\<open>onIdle()\<close>, whose promise is still pending.\<close>

definition callbackQueue_start :: "world \<Rightarrow> world" where
  "callbackQueue_start w =
     (case queue_start (callbackQueue (self w)) of
        (launched, q) \<Rightarrow>
          w\<lparr>self := (self w)\<lparr>callbackQueue := q\<rparr>,
            events := events w @ QueueStart # map CallbackStarted launched\<rparr>)"

text \<open>
  \<^verbatim>\<open>runCallbacksOnClose\<close> up to its \<^verbatim>\<open>await\<close>: the promise executor calls
  \<^verbatim>\<open>this.onClose(resolve)\<close>; the function returns its pending promise. The continuation keeps the
  ambient work store of the call.
\<close>

definition runCallbacksOnClose :: "ambient \<Rightarrow> world \<Rightarrow> closeWait \<times> world" where
  "runCallbacksOnClose amb w =
     (AwaitingClose (workStore amb), w\<lparr>events := events w @ [OnClose]\<rparr>)"

definition addCallback :: "ambient \<Rightarrow> AfterTask \<Rightarrow> TaskCallerInfo \<Rightarrow> world \<Rightarrow> completion" where
  "addCallback amb callback' callerInfo w =
     (case waitUntil (self w) of
        None \<Rightarrow> Inl (errorWaitUntilNotAvailable, w)
      | Some wu \<Rightarrow>
          (let w1 = (case workUnitStore amb of
                       None \<Rightarrow> w
                     | Some r \<Rightarrow>
                         w\<lparr>self := (self w)\<lparr>workUnitStores := set_add r (workUnitStores (self w))\<rparr>\<rparr>);
               store = newAfterTaskStore (afterTaskStore amb)
                         (case workUnitStore amb of None \<Rightarrow> None | Some r \<Rightarrow> phase w r)
                         callerInfo;
               wrapped = \<lparr>callback = callback', taskStore = store, snapshot = amb\<rparr>;
               w2 = callbackQueue_add wrapped w1
           in case runCallbacksOnClosePromise (self w2) of
                Some p \<Rightarrow> Inr w2
              | None \<Rightarrow>
                  (case runCallbacksOnClose amb w2 of
                     (p, w3) \<Rightarrow>
                       Inr (w3\<lparr>self := (self w3)\<lparr>runCallbacksOnClosePromise := Some p\<rparr>,
                               events := events w3 @ [WaitUntil RunCallbacksOnClose]\<rparr>))))"

definition after :: "ambient \<Rightarrow> AfterTask \<Rightarrow> TaskCallerInfo \<Rightarrow> world \<Rightarrow> completion" where
  "after amb task callerInfo w =
     (if isThenable task then
        (case waitUntil (self w) of
           None \<Rightarrow> Inl (errorWaitUntilNotAvailable, w)
         | Some wu \<Rightarrow>
             Inr (w\<lparr>catchHandlers :=
                       catchHandlers w @
                         [(task, callerInfo, afterTaskStore amb)],
                     events := events w @ [WaitUntil (TaskCatch task)]\<rparr>))
      else if typeof_function task then
        addCallback amb task callerInfo w
      else Inl (usageError, w))"

subsection \<open>runCallbacks\<close>

text \<open>The loop \<^verbatim>\<open>for (const workUnitStore of this.workUnitStores) workUnitStore.phase = 'after'\<close>.\<close>

fun flip_phases :: "nat list \<Rightarrow> world \<Rightarrow> world" where
  "flip_phases [] w = w"
| "flip_phases (r # rs) w =
     flip_phases rs
       (w\<lparr>phase := (phase w)(r := Some After),
          events := events w @ [PhaseAssigned r After]\<rparr>)"

text \<open>
  Modelled from the spec: \<^verbatim>\<open>withExecuteRevalidates\<close> (./revalidation-utils) is not part of the
  source file; it runs the function it is given, and applies the revalidations recorded
  meanwhile once the function's promise has settled, which is beyond this model.
\<close>

definition withExecuteRevalidates :: "WorkStore \<Rightarrow> (world \<Rightarrow> world) \<Rightarrow> world \<Rightarrow> world" where
  "withExecuteRevalidates store' fn w = fn w"

text \<open>
  \<^verbatim>\<open>runCallbacks\<close>, given the value of \<^verbatim>\<open>workAsyncStorage.getStore()\<close>. The function is async:
  \<open>Inl\<close> is the rejection of the promise it returns.
\<close>

definition runCallbacks :: "WorkStore option \<Rightarrow> world \<Rightarrow> completion" where
  "runCallbacks workStore' w =
     (if queue_size (callbackQueue (self w)) = 0 then Inr w
      else
        (let w1 = flip_phases (workUnitStores (self w)) w
         in case workStore' of
              None \<Rightarrow> Inl (InvariantError ''Missing workStore in AfterContext.runCallbacks'' None, w1)
            | Some ws \<Rightarrow> Inr (withExecuteRevalidates ws callbackQueue_start w1)))"

section \<open>The environment\<close>

text \<open>
  Everything that happens to one coordinator, as a sequence of inputs: application code calls
  \<^verbatim>\<open>after\<close> under some ambient stores (also from inside a running callback); the host invokes
  the thunk it was given through \<^verbatim>\<open>onClose\<close>; the continuation of \<^verbatim>\<open>runCallbacksOnClose\<close> is
  resumed; a promise task rejects; a running callback settles, by returning (\<open>None\<close>) or by
  throwing or rejecting (\<open>Some e\<close>).
\<close>

datatype input =
    CallAfter ambient AfterTask TaskCallerInfo
  | HostClose
  | Resume
  | TaskRejects AfterTask js_value
  | CallbackSettles nat "js_value option"

text \<open>Where a thrown value goes to the caller, the world at the throw remains.\<close>

definition world_of :: "completion \<Rightarrow> world" where
  "world_of c = (case c of Inl (e, w) \<Rightarrow> w | Inr w \<Rightarrow> w)"

definition set_promise :: "closeWait \<Rightarrow> world \<Rightarrow> world" where
  "set_promise p w = w\<lparr>self := (self w)\<lparr>runCallbacksOnClosePromise := Some p\<rparr>\<rparr>"


text \<open>The \<^verbatim>\<open>catch\<close> block of the wrapped callback, then the queue's bookkeeping.\<close>

definition callback_settles :: "externals \<Rightarrow> nat \<Rightarrow> js_value option \<Rightarrow> world \<Rightarrow> world" where
  "callback_settles ext i outcome w =
     (let q = callbackQueue (self w) in
      if i < length (pending q) then
        (let job = pending q ! i;
             w1 = (case outcome of
                     None \<Rightarrow> w
                   | Some error \<Rightarrow>
                       world_of (reportTaskError ext KFunction error (Some (taskStore job)) w));
             q1 = callbackQueue (self w1)
         in w1\<lparr>self := (self w1)\<lparr>callbackQueue :=
                  q1\<lparr>pending := take i (pending q1) @ drop (Suc i) (pending q1)\<rparr>\<rparr>\<rparr>)
      else w)"

fun run_handlers ::
  "externals \<Rightarrow> AfterTask \<Rightarrow> js_value \<Rightarrow>
   (AfterTask \<times> TaskCallerInfo \<times> AfterTaskStore option) list \<Rightarrow> world \<Rightarrow> world" where
  "run_handlers ext p error [] w = w"
| "run_handlers ext p error ((p', callerInfo, st) # hs) w =
     run_handlers ext p error hs
       (if p' = p then world_of (task_catch ext st callerInfo error w) else w)"

fun step :: "externals \<Rightarrow> input \<Rightarrow> world \<Rightarrow> world" where
  "step ext (CallAfter amb task callerInfo) w = world_of (after amb task callerInfo w)"
| "step ext HostClose w =
     (case runCallbacksOnClosePromise (self w) of
        Some (AwaitingClose ws) \<Rightarrow>
          set_promise (CloseResolved ws) (w\<lparr>events := events w @ [CloseNotified]\<rparr>)
      | _ \<Rightarrow> w)"
| "step ext Resume w =
     (case runCallbacksOnClosePromise (self w) of
        Some (CloseResolved ws) \<Rightarrow>
          (case runCallbacks ws w of
             Inl (e, w') \<Rightarrow> set_promise (DrainRejected e) w'
           | Inr w' \<Rightarrow>
               set_promise
                 (if queue_size (callbackQueue (self w)) = 0 then DrainSkipped else Draining) w')
      | _ \<Rightarrow> w)"
| "step ext (TaskRejects p error) w =
     (let w1 = run_handlers ext p error (catchHandlers w) w
      in w1\<lparr>catchHandlers := filter (\<lambda>h. fst h \<noteq> p) (catchHandlers w1)\<rparr>)"
| "step ext (CallbackSettles i outcome) w = callback_settles ext i outcome w"

fun run :: "externals \<Rightarrow> input list \<Rightarrow> world \<Rightarrow> world" where
  "run ext [] w = w"
| "run ext (i # is) w = run ext is (step ext i w)"

text \<open>The world right after \<^verbatim>\<open>new AfterContext(opts)\<close>, over a heap of work-unit stores.\<close>

definition initial ::
  "host_fn option \<Rightarrow> host_fn \<Rightarrow> (js_value \<Rightarrow> js_value option) option \<Rightarrow> bool \<Rightarrow>
   (nat \<Rightarrow> WorkUnitPhase option) \<Rightarrow> world" where
  "initial waitUntil' onClose' onTaskError' isEnabled' heap =
     \<lparr>self = AfterContext_constructor waitUntil' onClose' onTaskError' isEnabled',
      phase = heap, catchHandlers = [], events = []\<rparr>"

section \<open>Concrete inputs\<close>

definition example_ambient :: ambient where
  "example_ambient = \<lparr>workStore = Some 1, workUnitStore = Some 7, afterTaskStore = None\<rparr>"

definition example_caller :: TaskCallerInfo where
  "example_caller = \<lparr>callerStack = ''at handler'', reactOwnerStack = None\<rparr>"

definition example_heap :: "nat \<Rightarrow> WorkUnitPhase option" where
  "example_heap r = (if r = 7 then Some Action else None)"

definition example_world :: world where
  "example_world =
     initial (Some (HostFn ''waitUntil'')) (HostFn ''onClose'') None True example_heap"

definition unconfigured_world :: world where
  "unconfigured_world = initial None (HostFn ''onClose'') None True example_heap"

definition failing_stitch :: externals where
  "failing_stitch =
     \<lparr>isError = (\<lambda>v. case v of Error m \<Rightarrow> True | InvariantError m c \<Rightarrow> True | _ \<Rightarrow> False),
      stitchAfterCallstack = (\<lambda>e si. Inl (Error ''stitch failed''))\<rparr>"

definition throwing_hook :: "js_value \<Rightarrow> js_value option" where
  "throwing_hook e = Some (Error ''hook failed'')"

definition hooked_world :: world where
  "hooked_world =
     initial (Some (HostFn ''waitUntil'')) (HostFn ''onClose'') (Some throwing_hook) True
       example_heap"

section \<open>Predicates on event lists and worlds\<close>

text \<open>
  No \<^verbatim>\<open>start()\<close> of the queue and no launch of a callback comes before the first close
  notification.
\<close>

fun starts_after_close :: "event list \<Rightarrow> bool" where
  "starts_after_close [] = True"
| "starts_after_close (CloseNotified # es) = True"
| "starts_after_close (QueueStart # es) = False"
| "starts_after_close (CallbackStarted job # es) = False"
| "starts_after_close (e # es) = starts_after_close es"

text \<open>The events of the error reporter.\<close>

fun is_report :: "event \<Rightarrow> bool" where
  "is_report (ConsoleError args) = True"
| "is_report (OnTaskError e) = True"
| "is_report e = False"

fun awaiting_close :: "closeWait option \<Rightarrow> bool" where
  "awaiting_close None = True"
| "awaiting_close (Some (AwaitingClose ws)) = True"
| "awaiting_close (Some p) = False"

definition before_close :: "world \<Rightarrow> bool" where
  "before_close w =
     (isPaused (callbackQueue (self w)) \<and> awaiting_close (runCallbacksOnClosePromise (self w)))"

definition close_inv :: "world \<Rightarrow> bool" where
  "close_inv w =
     (starts_after_close (events w) \<and> (CloseNotified \<in> set (events w) \<or> before_close w))"

definition step_ok :: "world \<Rightarrow> world \<Rightarrow> bool" where
  "step_ok w w' =
     (\<exists>es. events w' = events w @ es \<and>
           (before_close w \<longrightarrow>
              starts_after_close es \<and> (CloseNotified \<in> set es \<or> before_close w')))"

text \<open>How often the close-wait task has been created, as the field of the instance tells.\<close>

definition armed :: "world \<Rightarrow> nat" where
  "armed w = (if runCallbacksOnClosePromise (self w) = None then 0 else 1)"

definition armed_inv :: "world \<Rightarrow> bool" where
  "armed_inv w =
     (count_list (events w) (WaitUntil RunCallbacksOnClose) = armed w \<and>
      count_list (events w) OnClose = armed w)"

text \<open>Two callbacks scheduled, the close, the drain, and a callback scheduled while draining.\<close>

definition example_inputs :: "input list" where
  "example_inputs =
     [CallAfter example_ambient (TFunction 1) example_caller,
      CallAfter example_ambient (TFunction 2) example_caller,
      HostClose,
      Resume,
      CallAfter example_ambient (TFunction 3) example_caller]"

definition example_job :: "nat \<Rightarrow> wrappedCallback" where
  "example_job n =
     \<lparr>callback = TFunction n,
      taskStore = \<lparr>rootTaskSpawnPhase = Some Action, rootTaskReactOwnerStack = None,
                   rootTaskCallerStack = ''at handler'', nestedTaskCallerStacks = None\<rparr>,
      snapshot = example_ambient\<rparr>"

text \<open>The world after two callbacks were scheduled and before the close.\<close>

definition scheduled_world :: world where
  "scheduled_world =
     run failing_stitch
       [CallAfter example_ambient (TFunction 1) example_caller,
        CallAfter example_ambient (TFunction 2) example_caller] example_world"

definition example_root :: AfterTaskStore where
  "example_root = newAfterTaskStore None (Some Action) example_caller"

section \<open>Chains of nested calls\<close>









section \<open>What each operation appends to the event list\<close>

lemma starts_after_close_append:
  "starts_after_close (es @ es') =
     (starts_after_close es \<and> (CloseNotified \<in> set es \<or> starts_after_close es'))"
  by (induction es rule: starts_after_close.induct) auto

lemma reports_start_nothing: "list_all is_report es \<Longrightarrow> starts_after_close es"
  by (induction es rule: starts_after_close.induct) auto

lemma count_list_0: "x \<notin> set xs \<Longrightarrow> count_list xs x = 0"
  by (induction xs) auto

lemma report_count: "list_all is_report es \<Longrightarrow> \<not> is_report e \<Longrightarrow> count_list es e = 0"
  by (rule count_list_0) (auto simp: list_all_iff)

lemma count_started:
  "count_list (map CallbackStarted js) (WaitUntil p) = 0"
  "count_list (map CallbackStarted js) OnClose = 0"
  by (induction js) auto

lemma count_phase:
  "count_list (map (\<lambda>r. PhaseAssigned r After) rs) (WaitUntil p) = 0"
  "count_list (map (\<lambda>r. PhaseAssigned r After) rs) OnClose = 0"
  by (induction rs) auto

lemma stitch_step_shape:
  "\<exists>es. snd (stitch_step ext error si w) = w\<lparr>events := events w @ es\<rparr> \<and> list_all is_report es"
  by (auto simp: stitch_step_def console_error_def split: option.splits sum.splits
      intro: exI [of _ "[]"])

lemma hook_step_shape:
  "\<exists>es. world_of (hook_step error w) = w\<lparr>events := events w @ es\<rparr> \<and> list_all is_report es"
  by (auto simp: hook_step_def console_error_def world_of_def Let_def split: option.splits
      intro: exI [of _ "[]"])

lemma reportTaskError_shape:
  "\<exists>es. world_of (reportTaskError ext kind error si w) = w\<lparr>events := events w @ es\<rparr>
        \<and> list_all is_report es"
proof -
  obtain e1 w1 where s: "stitch_step ext error si w = (e1, w1)"
    by (cases "stitch_step ext error si w")
  from stitch_step_shape [of ext error si w] s
  obtain es1 where w1: "w1 = w\<lparr>events := events w @ es1\<rparr>" and c1: "list_all is_report es1"
    by auto
  let ?w2 = "console_error [Str (taskKind_message kind), e1] w1"
  from hook_step_shape [of e1 ?w2]
  obtain es2 where w3: "world_of (hook_step e1 ?w2) = ?w2\<lparr>events := events ?w2 @ es2\<rparr>"
    and c2: "list_all is_report es2" by auto
  have "world_of (reportTaskError ext kind error si w) =
        w\<lparr>events := events w @ (es1 @ ConsoleError [Str (taskKind_message kind), e1] # es2)\<rparr>"
    using s w1 w3 by (simp add: reportTaskError_def console_error_def)
  moreover have "list_all is_report (es1 @ ConsoleError [Str (taskKind_message kind), e1] # es2)"
    using c1 c2 by simp
  ultimately show ?thesis by blast
qed

lemma flip_phases_events:
  "events (flip_phases rs w) = events w @ map (\<lambda>r. PhaseAssigned r After) rs"
  by (induction rs arbitrary: w) auto

lemma flip_phases_self: "self (flip_phases rs w) = self w"
  by (induction rs arbitrary: w) auto

lemma flip_phases_catchHandlers: "catchHandlers (flip_phases rs w) = catchHandlers w"
  by (induction rs arbitrary: w) auto

lemmas model_defs =
  example_inputs_def example_ambient_def example_caller_def example_world_def example_heap_def
  initial_def AfterContext_constructor_def pause_def new_PromiseQueue_def
  after_def addCallback_def callbackQueue_add_def queue_add_def runCallbacksOnClose_def
  newAfterTaskStore_def set_add_def world_of_def set_promise_def runCallbacks_def
  queue_size_def withExecuteRevalidates_def callbackQueue_start_def queue_start_def Let_def
  example_job_def scheduled_world_def hooked_world_def throwing_hook_def failing_stitch_def

lemma flip_phases_phase:
  "phase (flip_phases rs w) = (\<lambda>r. if r \<in> set rs then Some After else phase w r)"
  by (induction rs arbitrary: w) (auto simp: fun_eq_iff)

lemma scheduled_world_eq:
  "scheduled_world =
     example_world
       \<lparr>self := (self example_world)
          \<lparr>runCallbacksOnClosePromise := Some (AwaitingClose (Some 1)),
           callbackQueue := \<lparr>isPaused = True, queue = [example_job 1, example_job 2], pending = []\<rparr>,
           workUnitStores := [7]\<rparr>,
        events := [OnClose, WaitUntil RunCallbacksOnClose]\<rparr>"
  by (simp add: model_defs)

section \<open>Synchronous errors of after\<close>

text \<open>
  C2. A task that is neither thenable nor a function makes \<^verbatim>\<open>after\<close> throw the usage error at
  once, and the world at the throw is the world of the call: the callback queue, the set of
  observed work-unit stores, the close-wait promise, the attached handlers and the event list
  are all as they were.
\<close>

theorem after_malformed_usage_error:
  "\<not> isThenable task \<Longrightarrow> \<not> typeof_function task \<Longrightarrow>
   after amb task callerInfo w = Inl (usageError, w)"
  by (simp add: after_def)

theorem after_malformed_usage_error_witness:
  "\<not> isThenable (TNumber 3) \<and> \<not> typeof_function (TNumber 3) \<and>
   after example_ambient (TNumber 3) example_caller example_world =
     Inl (usageError, example_world)"
  using after_malformed_usage_error [of "TNumber 3" example_ambient example_caller example_world]
  by simp

text \<open>
  C3. Without \<^verbatim>\<open>waitUntil\<close>, \<^verbatim>\<open>after\<close> with a thenable or a function throws the configuration
  error at once, and the world at the throw is the world of the call: no handler was attached
  to the task, nothing was added to the queue or to the set of observed work-unit stores.
\<close>

theorem after_unconfigured_configuration_error:
  "waitUntil (self w) = None \<Longrightarrow> isThenable task \<or> typeof_function task \<Longrightarrow>
   after amb task callerInfo w = Inl (errorWaitUntilNotAvailable, w)"
  by (auto simp: after_def addCallback_def)

theorem after_unconfigured_configuration_error_witness:
  "waitUntil (self unconfigured_world) = None \<and>
   (isThenable (TPromise 1) \<or> typeof_function (TPromise 1)) \<and>
   after example_ambient (TPromise 1) example_caller unconfigured_world =
     Inl (errorWaitUntilNotAvailable, unconfigured_world)"
  using after_unconfigured_configuration_error
          [of unconfigured_world "TPromise 1" example_ambient example_caller]
  by (simp add: unconfigured_world_def initial_def AfterContext_constructor_def)

section \<open>Callbacks wait for the close notification\<close>

lemma step_ok_extend:
  "list_all is_report es \<Longrightarrow> step_ok w (w\<lparr>events := events w @ es\<rparr>)"
  by (auto simp: step_ok_def before_close_def reports_start_nothing)

lemma step_ok_refl: "step_ok w w"
  by (auto simp: step_ok_def)

lemma step_ok_trans: "step_ok w w1 \<Longrightarrow> step_ok w1 w2 \<Longrightarrow> step_ok w w2"
  unfolding step_ok_def
  apply (elim exE conjE)
  subgoal for es1 es2
    by (rule exI [of _ "es1 @ es2"]) (auto simp: starts_after_close_append)
  done

lemma step_ok_reportTaskError: "step_ok w (world_of (reportTaskError ext kind error si w))"
  using reportTaskError_shape [of ext kind error si w] by (auto intro: step_ok_extend)

lemma step_ok_addCallback: "step_ok w (world_of (addCallback amb cb ci w))"
  unfolding step_ok_def
  by (cases "isPaused (callbackQueue (self w))")
     (auto simp: addCallback_def world_of_def Let_def callbackQueue_add_def queue_add_def
        runCallbacksOnClose_def before_close_def split: option.splits)

lemma step_ok_after: "step_ok w (world_of (after amb task ci w))"
proof (cases "typeof_function task \<and> \<not> isThenable task")
  case True
  then show ?thesis using step_ok_addCallback [of w amb task ci] by (simp add: after_def)
next
  case False
  then show ?thesis
    by (auto simp: after_def world_of_def step_ok_def before_close_def split: option.splits)
qed

lemma step_ok_HostClose: "step_ok w (step ext HostClose w)"
  by (auto simp: step_ok_def set_promise_def split: option.splits closeWait.splits)

lemma runCallbacks_events: "\<exists>es. events (world_of (runCallbacks ws w)) = events w @ es"
  by (auto simp: runCallbacks_def world_of_def Let_def flip_phases_events flip_phases_self
      withExecuteRevalidates_def callbackQueue_start_def split: option.splits prod.splits)

lemma step_ok_Resume: "step_ok w (step ext Resume w)"
proof (cases "runCallbacksOnClosePromise (self w)")
  case None
  then show ?thesis by (simp add: step_ok_refl)
next
  case (Some p)
  show ?thesis
  proof (cases p)
    case (CloseResolved ws)
    with Some have nb: "\<not> before_close w" by (simp add: before_close_def)
    obtain es where "events (world_of (runCallbacks ws w)) = events w @ es"
      using runCallbacks_events by blast
    then have "events (step ext Resume w) = events w @ es"
      using Some CloseResolved
      by (auto simp: world_of_def set_promise_def split: sum.splits prod.splits)
    with nb show ?thesis by (auto simp: step_ok_def)
  qed (use Some in \<open>simp_all add: step_ok_refl\<close>)
qed

lemma step_ok_run_handlers: "step_ok w (run_handlers ext p error hs w)"
proof (induction hs arbitrary: w)
  case Nil
  show ?case by (simp add: step_ok_refl)
next
  case (Cons h hs)
  obtain p' ci st where h: "h = (p', ci, st)" by (cases h)
  let ?w1 = "if p' = p then world_of (task_catch ext st ci error w) else w"
  have 1: "step_ok w ?w1"
    by (simp add: task_catch_def step_ok_reportTaskError step_ok_refl)
  have 2: "step_ok ?w1 (run_handlers ext p error hs ?w1)" by (rule Cons.IH)
  have "run_handlers ext p error (h # hs) w = run_handlers ext p error hs ?w1"
    unfolding h by simp
  with step_ok_trans [OF 1 2] show ?case by simp
qed

lemma step_ok_same_events:
  "events w' = events w \<Longrightarrow> (before_close w \<Longrightarrow> before_close w') \<Longrightarrow> step_ok w w'"
  by (auto simp: step_ok_def)

lemma step_ok_TaskRejects: "step_ok w (step ext (TaskRejects p error) w)"
proof -
  let ?w1 = "run_handlers ext p error (catchHandlers w) w"
  have 1: "step_ok w ?w1" by (rule step_ok_run_handlers)
  have 2: "step_ok ?w1 (?w1\<lparr>catchHandlers := filter (\<lambda>h. fst h \<noteq> p) (catchHandlers ?w1)\<rparr>)"
    by (rule step_ok_same_events) (simp_all add: before_close_def)
  from step_ok_trans [OF 1 2] show ?thesis by (simp add: Let_def)
qed

lemma step_ok_callback_settles: "step_ok w (callback_settles ext i outcome w)"
proof (cases "i < length (pending (callbackQueue (self w)))")
  case False
  then show ?thesis by (simp add: callback_settles_def step_ok_refl)
next
  case True
  let ?job = "pending (callbackQueue (self w)) ! i"
  let ?w1 = "case outcome of None \<Rightarrow> w
             | Some error \<Rightarrow> world_of (reportTaskError ext KFunction error (Some (taskStore ?job)) w)"
  let ?q1 = "callbackQueue (self ?w1)"
  let ?w2 = "?w1\<lparr>self := (self ?w1)\<lparr>callbackQueue :=
                ?q1\<lparr>pending := take i (pending ?q1) @ drop (Suc i) (pending ?q1)\<rparr>\<rparr>\<rparr>"
  have 1: "step_ok w ?w1"
    by (cases outcome) (simp_all add: step_ok_refl step_ok_reportTaskError)
  have 2: "step_ok ?w1 ?w2"
    by (rule step_ok_same_events) (simp_all add: before_close_def)
  have "callback_settles ext i outcome w = ?w2"
    using True by (simp add: callback_settles_def Let_def)
  with step_ok_trans [OF 1 2] show ?thesis by simp
qed

lemma step_ok_step: "step_ok w (step ext i w)"
proof (cases i)
  case (CallAfter amb task ci)
  then show ?thesis by (simp add: step_ok_after)
next
  case HostClose
  then show ?thesis by (simp only: step_ok_HostClose)
next
  case Resume
  then show ?thesis by (simp only: step_ok_Resume)
next
  case (TaskRejects p e)
  then show ?thesis by (simp only: step_ok_TaskRejects)
next
  case (CallbackSettles n outcome)
  then show ?thesis by (simp add: step_ok_callback_settles)
qed

lemma close_inv_step: "close_inv w \<Longrightarrow> close_inv (step ext i w)"
  using step_ok_step [of w ext i]
  by (auto simp: close_inv_def step_ok_def starts_after_close_append)

lemma close_inv_run: "close_inv w \<Longrightarrow> close_inv (run ext ins w)"
  by (induction ins arbitrary: w) (auto intro: close_inv_step)

lemma close_inv_initial: "close_inv (initial wu oc ote en heap)"
  by (simp add: close_inv_def before_close_def initial_def AfterContext_constructor_def
      pause_def new_PromiseQueue_def)

section \<open>The close-wait task is created once\<close>

lemma armed_inv_reports:
  "armed_inv w \<Longrightarrow> list_all is_report es \<Longrightarrow> armed_inv (w\<lparr>events := events w @ es\<rparr>)"
  by (simp add: armed_inv_def armed_def report_count)

lemma armed_inv_reportTaskError:
  "armed_inv w \<Longrightarrow> armed_inv (world_of (reportTaskError ext kind error si w))"
  using reportTaskError_shape [of ext kind error si w] by (auto intro: armed_inv_reports)

lemma armed_inv_addCallback:
  "armed_inv w \<Longrightarrow> armed_inv (world_of (addCallback amb cb ci w))"
  by (cases "isPaused (callbackQueue (self w))")
     (auto simp: addCallback_def world_of_def Let_def callbackQueue_add_def queue_add_def
        runCallbacksOnClose_def armed_inv_def armed_def split: option.splits)

lemma armed_inv_after: "armed_inv w \<Longrightarrow> armed_inv (world_of (after amb task ci w))"
proof (cases "typeof_function task \<and> \<not> isThenable task")
  case True
  assume "armed_inv w"
  with True show ?thesis using armed_inv_addCallback [of w amb task ci] by (simp add: after_def)
next
  case False
  assume "armed_inv w"
  with False show ?thesis
    by (auto simp: after_def world_of_def armed_inv_def armed_def split: option.splits)
qed

lemma armed_inv_HostClose: "armed_inv w \<Longrightarrow> armed_inv (step ext HostClose w)"
  by (auto simp: armed_inv_def armed_def set_promise_def split: option.splits closeWait.splits)

lemma armed_inv_runCallbacks:
  "armed_inv w \<Longrightarrow> runCallbacksOnClosePromise (self w) \<noteq> None \<Longrightarrow>
   armed_inv (set_promise p (world_of (runCallbacks ws w)))"
  by (auto simp: runCallbacks_def world_of_def Let_def flip_phases_events flip_phases_self
      withExecuteRevalidates_def callbackQueue_start_def armed_inv_def armed_def set_promise_def
      count_started count_phase split: option.splits prod.splits)

lemma armed_inv_Resume: "armed_inv w \<Longrightarrow> armed_inv (step ext Resume w)"
proof (cases "runCallbacksOnClosePromise (self w)")
  case None
  assume "armed_inv w"
  with None show ?thesis by simp
next
  case (Some p)
  assume inv: "armed_inv w"
  show ?thesis
  proof (cases p)
    case (CloseResolved ws)
    have ne: "runCallbacksOnClosePromise (self w) \<noteq> None" using Some by simp
    show ?thesis
    proof (cases "runCallbacks ws w")
      case (Inl a)
      obtain e w' where a: "a = (e, w')" by (cases a)
      from armed_inv_runCallbacks [OF inv ne, of "DrainRejected e" ws] Inl a
      show ?thesis using Some CloseResolved by (simp add: world_of_def)
    next
      case (Inr w')
      from armed_inv_runCallbacks [OF inv ne, of _ ws] Inr
      show ?thesis using Some CloseResolved by (simp add: world_of_def)
    qed
  qed (use Some inv in simp_all)
qed

lemma armed_inv_run_handlers:
  "armed_inv w \<Longrightarrow> armed_inv (run_handlers ext p error hs w)"
proof (induction hs arbitrary: w)
  case Nil
  then show ?case by simp
next
  case (Cons h hs)
  obtain p' ci st where h: "h = (p', ci, st)" by (cases h)
  let ?w1 = "if p' = p then world_of (task_catch ext st ci error w) else w"
  have "armed_inv ?w1"
    using Cons.prems by (simp add: task_catch_def armed_inv_reportTaskError)
  then have "armed_inv (run_handlers ext p error hs ?w1)" by (rule Cons.IH)
  moreover have "run_handlers ext p error (h # hs) w = run_handlers ext p error hs ?w1"
    unfolding h by simp
  ultimately show ?case by simp
qed

lemma armed_inv_TaskRejects: "armed_inv w \<Longrightarrow> armed_inv (step ext (TaskRejects p error) w)"
proof -
  assume "armed_inv w"
  then have "armed_inv (run_handlers ext p error (catchHandlers w) w)"
    by (rule armed_inv_run_handlers)
  then show ?thesis by (simp add: Let_def armed_inv_def armed_def)
qed

lemma armed_inv_callback_settles:
  "armed_inv w \<Longrightarrow> armed_inv (callback_settles ext i outcome w)"
proof (cases "i < length (pending (callbackQueue (self w)))")
  case False
  assume "armed_inv w"
  with False show ?thesis by (simp add: callback_settles_def)
next
  case True
  assume inv: "armed_inv w"
  let ?job = "pending (callbackQueue (self w)) ! i"
  let ?w1 = "case outcome of None \<Rightarrow> w
             | Some error \<Rightarrow> world_of (reportTaskError ext KFunction error (Some (taskStore ?job)) w)"
  let ?q1 = "callbackQueue (self ?w1)"
  let ?w2 = "?w1\<lparr>self := (self ?w1)\<lparr>callbackQueue :=
                ?q1\<lparr>pending := take i (pending ?q1) @ drop (Suc i) (pending ?q1)\<rparr>\<rparr>\<rparr>"
  have 1: "armed_inv ?w1"
    using inv by (cases outcome) (simp_all add: armed_inv_reportTaskError)
  then have 2: "armed_inv ?w2"
    by (simp add: armed_inv_def armed_def)
  have "callback_settles ext i outcome w = ?w2"
    using True by (simp add: callback_settles_def Let_def)
  with 2 show ?thesis by simp
qed

lemma armed_inv_step: "armed_inv w \<Longrightarrow> armed_inv (step ext i w)"
proof (cases i)
  case (CallAfter amb task ci)
  assume "armed_inv w"
  with CallAfter show ?thesis by (simp add: armed_inv_after)
next
  case HostClose
  assume "armed_inv w"
  with HostClose show ?thesis by (simp only: armed_inv_HostClose)
next
  case Resume
  assume "armed_inv w"
  with Resume show ?thesis by (simp only: armed_inv_Resume)
next
  case (TaskRejects p e)
  assume "armed_inv w"
  with TaskRejects show ?thesis by (simp only: armed_inv_TaskRejects)
next
  case (CallbackSettles n outcome)
  assume "armed_inv w"
  with CallbackSettles show ?thesis by (simp add: armed_inv_callback_settles)
qed

lemma armed_inv_run: "armed_inv w \<Longrightarrow> armed_inv (run ext ins w)"
  by (induction ins arbitrary: w) (auto intro: armed_inv_step)

lemma armed_inv_initial: "armed_inv (initial wu oc ote en heap)"
  by (simp add: armed_inv_def armed_def initial_def AfterContext_constructor_def)

lemma addCallback_first:
  "waitUntil (self w) = Some wu \<Longrightarrow> runCallbacksOnClosePromise (self w) = None \<Longrightarrow>
   \<exists>w'. addCallback amb cb ci w = Inr w' \<and>
     runCallbacksOnClosePromise (self w') = Some (AwaitingClose (workStore amb)) \<and>
     count_list (events w') (WaitUntil RunCallbacksOnClose) =
       Suc (count_list (events w) (WaitUntil RunCallbacksOnClose)) \<and>
     count_list (events w') OnClose = Suc (count_list (events w) OnClose)"
  by (cases "isPaused (callbackQueue (self w))")
     (auto simp: addCallback_def Let_def callbackQueue_add_def queue_add_def
        runCallbacksOnClose_def split: option.splits)

lemma addCallback_later:
  "waitUntil (self w) = Some wu \<Longrightarrow> runCallbacksOnClosePromise (self w) = Some p \<Longrightarrow>
   \<exists>w'. addCallback amb cb ci w = Inr w' \<and>
     runCallbacksOnClosePromise (self w') = Some p \<and>
     count_list (events w') (WaitUntil RunCallbacksOnClose) =
       count_list (events w) (WaitUntil RunCallbacksOnClose) \<and>
     count_list (events w') OnClose = count_list (events w) OnClose"
  by (cases "isPaused (callbackQueue (self w))")
     (auto simp: addCallback_def Let_def callbackQueue_add_def queue_add_def
        runCallbacksOnClose_def split: option.splits)

section \<open>Claims about the close notification\<close>

text \<open>
  C1. The constructor leaves the callback queue paused, and in every run of a coordinator from
  its construction, whatever is scheduled (any number of calls of \<^verbatim>\<open>after\<close>, nested or not) and
  whenever the host closes, neither \<^verbatim>\<open>start()\<close> of the queue nor the launch of any wrapped
  callback precedes the close notification in the event list.
\<close>

theorem callbacks_start_after_close:
  "isPaused (callbackQueue (AfterContext_constructor wu oc ote en)) \<and>
   starts_after_close (events (run ext ins (initial wu oc ote en heap)))"
  using close_inv_run [OF close_inv_initial, of ext ins wu oc ote en heap]
  by (simp add: close_inv_def AfterContext_constructor_def pause_def)

theorem callbacks_start_after_close_witness:
  "starts_after_close (events (run failing_stitch example_inputs example_world)) \<and>
   QueueStart \<in> set (events (run failing_stitch example_inputs example_world))"
  using callbacks_start_after_close
    [where wu = "Some (HostFn ''waitUntil'')" and oc = "HostFn ''onClose''" and ote = None
       and en = True and ext = failing_stitch and ins = example_inputs and heap = example_heap]
  by (simp add: model_defs)

text \<open>
  C6. In every run of a coordinator from its construction, \<^verbatim>\<open>onClose\<close> has been called and
  the close-wait promise has been passed to \<^verbatim>\<open>waitUntil\<close> exactly as often as the field
  \<^verbatim>\<open>runCallbacksOnClosePromise\<close> tells: never while it is unset, once from then on. With
  \<^verbatim>\<open>waitUntil\<close> configured, the call of \<^verbatim>\<open>addCallback\<close> that finds the field unset sets it
  to the pending promise and makes both calls once; a call that finds it set leaves it as it is
  and makes neither call.
\<close>

theorem close_wait_armed_once:
  "count_list (events (run ext ins (initial wu oc ote en heap))) (WaitUntil RunCallbacksOnClose)
     = armed (run ext ins (initial wu oc ote en heap)) \<and>
   count_list (events (run ext ins (initial wu oc ote en heap))) OnClose
     = armed (run ext ins (initial wu oc ote en heap)) \<and>
   armed (run ext ins (initial wu oc ote en heap)) \<le> 1 \<and>
   (waitUntil (self w) \<noteq> None \<and> runCallbacksOnClosePromise (self w) = None \<longrightarrow>
      (\<exists>w'. addCallback amb cb ci w = Inr w' \<and>
         runCallbacksOnClosePromise (self w') = Some (AwaitingClose (workStore amb)) \<and>
         count_list (events w') (WaitUntil RunCallbacksOnClose) =
           Suc (count_list (events w) (WaitUntil RunCallbacksOnClose)) \<and>
         count_list (events w') OnClose = Suc (count_list (events w) OnClose))) \<and>
   (waitUntil (self w) \<noteq> None \<and> runCallbacksOnClosePromise (self w) = Some p \<longrightarrow>
      (\<exists>w'. addCallback amb cb ci w = Inr w' \<and>
         runCallbacksOnClosePromise (self w') = Some p \<and>
         count_list (events w') (WaitUntil RunCallbacksOnClose) =
           count_list (events w) (WaitUntil RunCallbacksOnClose) \<and>
         count_list (events w') OnClose = count_list (events w) OnClose))"
proof -
  have "armed_inv (run ext ins (initial wu oc ote en heap))"
    by (rule armed_inv_run [OF armed_inv_initial])
  then show ?thesis
    using addCallback_first [of w _ amb cb ci] addCallback_later [of w _ p amb cb ci]
    by (auto simp: armed_inv_def armed_def)
qed

theorem close_wait_armed_once_witness:
  "count_list (events (run failing_stitch example_inputs example_world))
     (WaitUntil RunCallbacksOnClose) = 1 \<and>
   count_list (events (run failing_stitch example_inputs example_world)) OnClose = 1 \<and>
   waitUntil (self example_world) \<noteq> None \<and>
   runCallbacksOnClosePromise (self example_world) = None \<and>
   (\<exists>w'. addCallback example_ambient (TFunction 1) example_caller example_world = Inr w' \<and>
      runCallbacksOnClosePromise (self w') = Some (AwaitingClose (Some 1)) \<and>
      count_list (events w') (WaitUntil RunCallbacksOnClose) = 1) \<and>
   waitUntil (self scheduled_world) \<noteq> None \<and>
   runCallbacksOnClosePromise (self scheduled_world) = Some (AwaitingClose (Some 1)) \<and>
   (\<exists>w'. addCallback example_ambient (TFunction 3) example_caller scheduled_world = Inr w' \<and>
      runCallbacksOnClosePromise (self w') = Some (AwaitingClose (Some 1)) \<and>
      count_list (events w') (WaitUntil RunCallbacksOnClose) = 1)"
proof -
  have a: "armed (run failing_stitch example_inputs example_world) = 1"
    by (simp add: armed_def model_defs)
  have w0: "waitUntil (self example_world) \<noteq> None \<and>
            runCallbacksOnClosePromise (self example_world) = None \<and>
            events example_world = [] \<and> workStore example_ambient = Some 1"
    by (simp add: example_world_def initial_def AfterContext_constructor_def example_ambient_def)
  have w2: "waitUntil (self scheduled_world) \<noteq> None \<and>
            runCallbacksOnClosePromise (self scheduled_world) = Some (AwaitingClose (Some 1)) \<and>
            events scheduled_world = [OnClose, WaitUntil RunCallbacksOnClose]"
    by (simp add: scheduled_world_eq example_world_def initial_def AfterContext_constructor_def)
  from close_wait_armed_once
         [where ext = failing_stitch and ins = example_inputs
            and wu = "Some (HostFn ''waitUntil'')" and oc = "HostFn ''onClose''" and ote = None
            and en = True and heap = example_heap and w = example_world
            and amb = example_ambient and cb = "TFunction 1" and ci = example_caller]
       a w0
  have first: "count_list (events (run failing_stitch example_inputs example_world))
        (WaitUntil RunCallbacksOnClose) = 1 \<and>
      count_list (events (run failing_stitch example_inputs example_world)) OnClose = 1 \<and>
      (\<exists>w'. addCallback example_ambient (TFunction 1) example_caller example_world = Inr w' \<and>
         runCallbacksOnClosePromise (self w') = Some (AwaitingClose (Some 1)) \<and>
         count_list (events w') (WaitUntil RunCallbacksOnClose) = 1)"
    by (auto simp: example_world_def)
  from close_wait_armed_once
         [where ext = failing_stitch and ins = example_inputs
            and wu = "Some (HostFn ''waitUntil'')" and oc = "HostFn ''onClose''" and ote = None
            and en = True and heap = example_heap and w = scheduled_world
            and p = "AwaitingClose (Some 1)" and amb = example_ambient and cb = "TFunction 3"
            and ci = example_caller]
       w2
  have later: "\<exists>w'. addCallback example_ambient (TFunction 3) example_caller scheduled_world = Inr w' \<and>
      runCallbacksOnClosePromise (self w') = Some (AwaitingClose (Some 1)) \<and>
      count_list (events w') (WaitUntil RunCallbacksOnClose) = 1"
    by auto
  from first later w0 w2 show ?thesis by blast
qed

section \<open>Claims about the drain\<close>

text \<open>
  C4. When \<^verbatim>\<open>runCallbacks\<close> runs on a non-empty queue, the events it appends are first the
  assignment of \<^verbatim>\<open>'after'\<close> to the phase of every observed work-unit store, in the order of
  the set, and only then, if the work store exists, the start of the queue and the launches
  of the queued callbacks; afterwards every observed store has the phase \<^verbatim>\<open>'after'\<close>.
\<close>

theorem phases_flipped_before_start:
  "queue_size (callbackQueue (self w)) \<noteq> 0 \<Longrightarrow>
   events (world_of (runCallbacks workStore' w)) =
     events w @ map (\<lambda>r. PhaseAssigned r After) (workUnitStores (self w)) @
       (case workStore' of
          None \<Rightarrow> []
        | Some ws \<Rightarrow>
            QueueStart # map CallbackStarted (fst (queue_start (callbackQueue (self w))))) \<and>
   (\<forall>r \<in> set (workUnitStores (self w)).
      phase (world_of (runCallbacks workStore' w)) r = Some After)"
  by (auto simp: runCallbacks_def Let_def withExecuteRevalidates_def callbackQueue_start_def
      world_of_def flip_phases_events flip_phases_self flip_phases_phase
      split: prod.splits option.splits)

theorem phases_flipped_before_start_witness:
  "queue_size (callbackQueue (self scheduled_world)) \<noteq> 0 \<and>
   events (world_of (runCallbacks (Some 1) scheduled_world)) =
     [OnClose, WaitUntil RunCallbacksOnClose, PhaseAssigned 7 After, QueueStart,
      CallbackStarted (example_job 1), CallbackStarted (example_job 2)] \<and>
   phase (world_of (runCallbacks (Some 1) scheduled_world)) 7 = Some After"
  using phases_flipped_before_start [of scheduled_world "Some 1"]
  by (simp add: scheduled_world_eq queue_size_def queue_start_def example_world_def initial_def)

text \<open>
  C7. When \<^verbatim>\<open>runCallbacks\<close> runs on a non-empty queue without an ambient work store, it
  throws the invariant error. The instance is as before, the events added up to the throw
  contain no \<^verbatim>\<open>console.error\<close> and no call of the error hook, the error differs from the
  usage error and from the configuration error, and the continuation of
  \<^verbatim>\<open>runCallbacksOnClose\<close> rejects the close-wait promise with it.
\<close>

theorem missing_workStore_invariant_error:
  "queue_size (callbackQueue (self w)) \<noteq> 0 \<Longrightarrow>
   (\<exists>w'. runCallbacks None w =
            Inl (InvariantError ''Missing workStore in AfterContext.runCallbacks'' None, w') \<and>
          self w' = self w \<and>
          list_all (\<lambda>e. \<not> is_report e) (drop (length (events w)) (events w')) \<and>
          take (length (events w)) (events w') = events w) \<and>
   InvariantError ''Missing workStore in AfterContext.runCallbacks'' None \<noteq> usageError \<and>
   InvariantError ''Missing workStore in AfterContext.runCallbacks'' None
     \<noteq> errorWaitUntilNotAvailable \<and>
   (runCallbacksOnClosePromise (self w) = Some (CloseResolved None) \<longrightarrow>
      runCallbacksOnClosePromise (self (step ext Resume w)) =
        Some (DrainRejected
                (InvariantError ''Missing workStore in AfterContext.runCallbacks'' None)))"
  by (simp add: runCallbacks_def Let_def flip_phases_events flip_phases_self usageError_def
      errorWaitUntilNotAvailable_def list_all_iff set_promise_def)

theorem missing_workStore_invariant_error_witness:
  "queue_size (callbackQueue (self scheduled_world)) \<noteq> 0 \<and>
   runCallbacks None scheduled_world =
     Inl (InvariantError ''Missing workStore in AfterContext.runCallbacks'' None,
          scheduled_world
            \<lparr>phase := (phase scheduled_world)(7 := Some After),
             events := [OnClose, WaitUntil RunCallbacksOnClose, PhaseAssigned 7 After]\<rparr>)"
  using missing_workStore_invariant_error [of scheduled_world failing_stitch]
  by (simp add: scheduled_world_eq queue_size_def runCallbacks_def Let_def)

text \<open>
  C10. When \<^verbatim>\<open>runCallbacks\<close> runs on a non-empty queue without an ambient work store, the
  world at the throw of the invariant error is the world after the phase loop: every
  observed work-unit store has the phase \<^verbatim>\<open>'after'\<close>, and if one of them had another phase
  before, the world at the throw differs from the world of the call.
\<close>

theorem invariant_error_after_phase_flip:
  "queue_size (callbackQueue (self w)) \<noteq> 0 \<Longrightarrow>
   runCallbacks None w =
     Inl (InvariantError ''Missing workStore in AfterContext.runCallbacks'' None,
          flip_phases (workUnitStores (self w)) w) \<and>
   (\<forall>r \<in> set (workUnitStores (self w)).
      phase (flip_phases (workUnitStores (self w)) w) r = Some After) \<and>
   ((\<exists>r \<in> set (workUnitStores (self w)). phase w r \<noteq> Some After) \<longrightarrow>
      flip_phases (workUnitStores (self w)) w \<noteq> w)"
proof -
  assume nonempty: "queue_size (callbackQueue (self w)) \<noteq> 0"
  let ?w' = "flip_phases (workUnitStores (self w)) w"
  have thrown: "runCallbacks None w =
      Inl (InvariantError ''Missing workStore in AfterContext.runCallbacks'' None, ?w')"
    using nonempty by (simp add: runCallbacks_def Let_def)
  have flipped: "\<forall>r \<in> set (workUnitStores (self w)). phase ?w' r = Some After"
    by (simp add: flip_phases_phase)
  have changed: "?w' \<noteq> w" if "\<exists>r \<in> set (workUnitStores (self w)). phase w r \<noteq> Some After"
  proof
    assume same: "?w' = w"
    from that obtain r where r: "r \<in> set (workUnitStores (self w))" "phase w r \<noteq> Some After"
      by blast
    from flipped r(1) have "phase ?w' r = Some After" by blast
    with same r(2) show False by simp
  qed
  from thrown flipped changed show ?thesis by blast
qed

theorem invariant_error_after_phase_flip_witness:
  "queue_size (callbackQueue (self scheduled_world)) \<noteq> 0 \<and>
   7 \<in> set (workUnitStores (self scheduled_world)) \<and>
   phase scheduled_world 7 = Some Action \<and>
   phase (flip_phases (workUnitStores (self scheduled_world)) scheduled_world) 7 = Some After \<and>
   flip_phases (workUnitStores (self scheduled_world)) scheduled_world \<noteq> scheduled_world \<and>
   runCallbacks None scheduled_world =
     Inl (InvariantError ''Missing workStore in AfterContext.runCallbacks'' None,
          flip_phases (workUnitStores (self scheduled_world)) scheduled_world)"
proof -
  have q: "queue_size (callbackQueue (self scheduled_world)) \<noteq> 0"
    by (simp add: scheduled_world_eq queue_size_def)
  have m: "7 \<in> set (workUnitStores (self scheduled_world))"
    by (simp add: scheduled_world_eq)
  have p: "phase scheduled_world 7 = Some Action"
    by (simp add: scheduled_world_eq example_world_def initial_def example_heap_def)
  from p have "phase scheduled_world 7 \<noteq> Some After" by simp
  with m have "\<exists>r \<in> set (workUnitStores (self scheduled_world)). phase scheduled_world r \<noteq> Some After"
    by blast
  with invariant_error_after_phase_flip [OF q] m q p show ?thesis by blast
qed

section \<open>Claims about the error reporter\<close>

text \<open>
  C8. When \<^verbatim>\<open>reportTaskError\<close> is given a recognized error and a stack info, and
  \<^verbatim>\<open>stitchAfterCallstack\<close> throws, the reporter returns normally after logging the stitch
  failure, then logging the message of the task kind with the original error, then, if a hook
  is configured, calling it with the original error (and logging what the hook throws).
\<close>

theorem stitch_failure_keeps_report:
  "isError ext error \<Longrightarrow> stitchAfterCallstack ext error si = Inl stitchError \<Longrightarrow>
   \<exists>w'. reportTaskError ext kind error (Some si) w = Inr w' \<and>
     events w' =
       events w @
       [ConsoleError [InvariantError ''Could not stitch callstack for after callback''
                        (Some stitchError)],
        ConsoleError [Str (taskKind_message kind), error]] @
       (case onTaskError (self w) of
          None \<Rightarrow> []
        | Some hook \<Rightarrow>
            OnTaskError error #
            (case hook error of
               None \<Rightarrow> []
             | Some handlerError \<Rightarrow>
                 [ConsoleError
                    [InvariantError
                       ''`onTaskError` threw while handling an error thrown from an `unstable_after` task''
                       (Some handlerError)]]))"
  by (auto simp: reportTaskError_def stitch_step_def hook_step_def console_error_def Let_def
      split: option.splits)

theorem stitch_failure_keeps_report_witness:
  "isError failing_stitch (Error ''boom'') \<and>
   stitchAfterCallstack failing_stitch (Error ''boom'') example_root = Inl (Error ''stitch failed'') \<and>
   (\<exists>w'. reportTaskError failing_stitch KFunction (Error ''boom'') (Some example_root) hooked_world
            = Inr w' \<and>
      events w' =
        [ConsoleError [InvariantError ''Could not stitch callstack for after callback''
                         (Some (Error ''stitch failed''))],
         ConsoleError [Str ''An error occurred in a function passed to `unstable_after()`:'',
                       Error ''boom''],
         OnTaskError (Error ''boom''),
         ConsoleError
           [InvariantError
              ''`onTaskError` threw while handling an error thrown from an `unstable_after` task''
              (Some (Error ''hook failed''))]])"
proof -
  have e: "isError failing_stitch (Error ''boom'')" by (simp add: failing_stitch_def)
  have s: "stitchAfterCallstack failing_stitch (Error ''boom'') example_root =
           Inl (Error ''stitch failed'')" by (simp add: failing_stitch_def)
  from stitch_failure_keeps_report [OF e s, of KFunction hooked_world] e s
  show ?thesis
    by (simp add: hooked_world_def initial_def AfterContext_constructor_def throwing_hook_def
        taskKind_message_def)
qed

text \<open>
  C9. With a hook configured, \<^verbatim>\<open>reportTaskError\<close> returns normally whatever the hook does.
  After the stitching step it appends the log of the task-kind message, one call of the hook,
  and, if the hook throws, one log of that failure: nothing is stitched, logged with the task
  message, or passed to the hook a second time.
\<close>

theorem throwing_hook_is_contained:
  "onTaskError (self w) = Some hook \<Longrightarrow>
   stitch_step ext error stackInfo w = (error1, w1) \<Longrightarrow>
   reportTaskError ext kind error stackInfo w =
     Inr (w1\<lparr>events :=
               events w1 @
               ConsoleError [Str (taskKind_message kind), error1] #
               OnTaskError error1 #
               (case hook error1 of
                  None \<Rightarrow> []
                | Some handlerError \<Rightarrow>
                    [ConsoleError
                       [InvariantError
                          ''`onTaskError` threw while handling an error thrown from an `unstable_after` task''
                          (Some handlerError)]])\<rparr>)"
proof -
  assume h: "onTaskError (self w) = Some hook" and s: "stitch_step ext error stackInfo w = (error1, w1)"
  from stitch_step_shape [of ext error stackInfo w] s
  obtain es where "w1 = w\<lparr>events := events w @ es\<rparr>" by auto
  then have "onTaskError (self w1) = Some hook" using h by simp
  then show ?thesis using s
    by (simp add: reportTaskError_def hook_step_def console_error_def Let_def split: option.splits)
qed

theorem throwing_hook_is_contained_witness:
  "onTaskError (self hooked_world) = Some throwing_hook \<and>
   stitch_step failing_stitch (Str ''rejected'') None hooked_world = (Str ''rejected'', hooked_world) \<and>
   throwing_hook (Str ''rejected'') = Some (Error ''hook failed'') \<and>
   reportTaskError failing_stitch KPromise (Str ''rejected'') None hooked_world =
     Inr (hooked_world
            \<lparr>events :=
               [ConsoleError [Str ''A promise passed to `unstable_after()` rejected:'',
                              Str ''rejected''],
                OnTaskError (Str ''rejected''),
                ConsoleError
                  [InvariantError
                     ''`onTaskError` threw while handling an error thrown from an `unstable_after` task''
                     (Some (Error ''hook failed''))]]\<rparr>)"
proof -
  have h: "onTaskError (self hooked_world) = Some throwing_hook"
    by (simp add: hooked_world_def initial_def AfterContext_constructor_def)
  have s: "stitch_step failing_stitch (Str ''rejected'') None hooked_world =
           (Str ''rejected'', hooked_world)"
    by (simp add: stitch_step_def)
  have t: "throwing_hook (Str ''rejected'') = Some (Error ''hook failed'')"
    by (simp add: throwing_hook_def)
  have ev: "events hooked_world = []" by (simp add: hooked_world_def initial_def)
  from throwing_hook_is_contained [OF h s, of KPromise] h s t ev
  show ?thesis by (simp add: taskKind_message_def)
qed

section \<open>Claims about the caller chain\<close>












end
